theory Spec2Isabelle
  imports Main
begin

section \<open>The renderer container of src/lib/renderer.ts\<close>

subsection \<open>Renderers and what their methods do\<close>

text \<open>
  A renderer is an object of the host program. The container compares renderers with
  \<^verbatim>\<open>===\<close>, that is by object identity, and reads the \<^verbatim>\<open>readonly name\<close> property.
  A renderer value is therefore its identity \<open>oid\<close> together with its name; two values are
  the same object exactly when they are equal, and a look-alike that shares the name of a
  registered renderer has another \<open>oid\<close>.
\<close>

record Renderer =
  oid :: nat
  name :: string

text \<open>
  What \<^verbatim>\<open>gen.render(project)\<close> can do. The call either returns a promise, which is later
  fulfilled or rejected with a reason, or it throws before it has returned one (the
  interface only asks for a function of type \<^verbatim>\<open>Promise<void>\<close>, it need not be
  \<^verbatim>\<open>async\<close>). Of the reason only what the handler reads matters, its \<^verbatim>\<open>message\<close>:
  \<open>ErrorObj m\<close> is an object whose message is \<open>m\<close>, \<open>Nullish\<close> is \<^verbatim>\<open>undefined\<close> or
  \<^verbatim>\<open>null\<close>, on which reading a property throws a TypeError. A promise that never
  settles is not modelled; it stalls the pass.
\<close>

datatype reason = ErrorObj string | Nullish

datatype settlement = Fulfils | Rejects reason

datatype render_call = Returns settlement | Throws reason

text \<open>
  The two methods of the \<^verbatim>\<open>Renderer\<close> interface, as they answer during one render pass:
  \<open>isEnabled p gen\<close> is the boolean \<^verbatim>\<open>gen.isEnabled()\<close>, \<open>render_op p gen\<close> is
  \<^verbatim>\<open>gen.render(project)\<close> for the project of the pass.
\<close>

record plugins =
  isEnabled :: "Renderer \<Rightarrow> bool"
  render_op :: "Renderer \<Rightarrow> render_call"

subsection \<open>Exceptions\<close>

text \<open>
  What a method of the container can raise: the AssertionError of \<^verbatim>\<open>ok(cond, message)\<close>,
  the TypeError of a property read on \<^verbatim>\<open>undefined\<close> or \<^verbatim>\<open>null\<close>, and whatever a
  renderer threw.
\<close>

datatype exn = AssertionError string | TypeError | Thrown reason

definition ok :: "bool \<Rightarrow> string \<Rightarrow> exn + unit" where
  "ok cond message = (if cond then Inr () else Inl (AssertionError message))"

subsection \<open>The JavaScript Map, in insertion order\<close>

type_synonym ('k, 'v) Map = "('k \<times> 'v) list"

fun Map_get :: "('k, 'v) Map \<Rightarrow> 'k \<Rightarrow> 'v option" where
  "Map_get [] k = None"
| "Map_get ((k', v) # m) k = (if k' = k then Some v else Map_get m k)"

definition Map_has :: "('k, 'v) Map \<Rightarrow> 'k \<Rightarrow> bool" where
  "Map_has m k = (Map_get m k \<noteq> None)"

text \<open>\<^verbatim>\<open>set\<close> replaces the value of a key that is present where it stands, and appends a new key.\<close>

fun Map_set :: "('k, 'v) Map \<Rightarrow> 'k \<Rightarrow> 'v \<Rightarrow> ('k, 'v) Map" where
  "Map_set [] k v = [(k, v)]"
| "Map_set ((k', v') # m) k v = (if k' = k then (k, v) # m else (k', v') # Map_set m k v)"

definition Map_values :: "('k, 'v) Map \<Rightarrow> 'v list" where
  "Map_values m = map snd m"

subsection \<open>The container\<close>

record RendererContainer =
  defaultRenderer :: Renderer
  renderers :: "(string, Renderer) Map"

text \<open>
  A method returns what it returned or raised, and the container as the call left it, so
  that a raise after a mutation would show.
\<close>

type_synonym 'a outcome = "(exn + 'a) \<times> RendererContainer"

definition duplicate_message :: "Renderer \<Rightarrow> string" where
  "duplicate_message renderer = ''Renderer names must be unique, duplicate: '' @ name renderer"

definition addRenderer :: "RendererContainer \<Rightarrow> Renderer \<Rightarrow> unit outcome" where
  "addRenderer this renderer =
     (case ok (\<not> Map_has (renderers this) (name renderer)) (duplicate_message renderer) of
        Inl e \<Rightarrow> (Inl e, this)
      | Inr _ \<Rightarrow> (Inr (), this\<lparr>renderers := Map_set (renderers this) (name renderer) renderer\<rparr>))"

definition getRenderer :: "RendererContainer \<Rightarrow> string \<Rightarrow> Renderer option outcome" where
  "getRenderer this n = (Inr (Map_get (renderers this) n), this)"

definition unregistered_message :: string where
  "unregistered_message =
     ''A renderer can only be set as the default if it has been added to the container''"

definition setDefault :: "RendererContainer \<Rightarrow> Renderer \<Rightarrow> unit outcome" where
  "setDefault this renderer =
     (case ok (Map_get (renderers this) (name renderer) = Some renderer) unregistered_message of
        Inl e \<Rightarrow> (Inl e, this)
      | Inr _ \<Rightarrow> (Inr (), this\<lparr>defaultRenderer := renderer\<rparr>))"

text \<open>
  The constructor. \<^verbatim>\<open>new HtmlRenderer(app)\<close> and \<^verbatim>\<open>new Serializer(app)\<close> create the two
  objects it is given here; the \<open>renderers\<close> field starts as the empty Map. A raise of
  \<open>addRenderer\<close> leaves the constructor, and no container exists.
\<close>

definition constructor :: "Renderer \<Rightarrow> Renderer \<Rightarrow> exn + RendererContainer" where
  "constructor html json =
     (let this = \<lparr>defaultRenderer = html, renderers = []\<rparr> in
      case addRenderer this html of
        (Inl e, _) \<Rightarrow> Inl e
      | (Inr _, this) \<Rightarrow>
          (case addRenderer this json of
             (Inl e, _) \<Rightarrow> Inl e
           | (Inr _, this) \<Rightarrow> Inr this))"

subsection \<open>The render pass\<close>

text \<open>
  The handler \<^verbatim>\<open>(error) => { this.app.logger.error(error.message); }\<close>: \<open>Inr m\<close> when it
  handed \<open>m\<close> to the logger and returned, \<open>Inl\<close> when reading \<^verbatim>\<open>error.message\<close> threw.
\<close>

fun catch_handler :: "reason \<Rightarrow> exn + string" where
  "catch_handler (ErrorObj m) = Inr m"
| "catch_handler Nullish = Inl TypeError"

text \<open>
  The promise \<^verbatim>\<open>p.catch(handler)\<close>: the messages its handler logs, and the exception it is
  rejected with, if any.
\<close>

fun caught :: "settlement \<Rightarrow> string list \<times> exn option" where
  "caught Fulfils = ([], None)"
| "caught (Rejects e) =
     (case catch_handler e of Inr m \<Rightarrow> ([m], None) | Inl x \<Rightarrow> ([], Some x))"

text \<open>
  \<^verbatim>\<open>enabled.map((gen) => gen.render(project).catch(...))\<close> calls the renderers in array
  order. It gives the renderers whose \<^verbatim>\<open>render\<close> was called, the promises they returned,
  and the throw that ended the map, if there was one: a call that throws returns no
  promise, and the callback is not run on the rest of the array.
\<close>

fun map_render ::
  "(Renderer \<Rightarrow> render_call) \<Rightarrow> Renderer list \<Rightarrow> Renderer list \<times> settlement list \<times> reason option"
where
  "map_render f [] = ([], [], None)"
| "map_render f (gen # gens) =
     (case f gen of
        Throws v \<Rightarrow> ([gen], [], Some v)
      | Returns p \<Rightarrow>
          (case map_render f gens of (called, ps, t) \<Rightarrow> (gen # called, p # ps, t)))"

text \<open>
  \<^verbatim>\<open>Promise.all\<close> is fulfilled when every promise is, and rejected with the rejection of
  one that is rejected. Which one is first is a matter of timing; here it is the first of the
  array (the handler's only rejection is the TypeError).
\<close>

fun Promise_all :: "exn option list \<Rightarrow> exn + unit" where
  "Promise_all [] = Inr ()"
| "Promise_all (None # ps) = Promise_all ps"
| "Promise_all (Some e # ps) = Inl e"

text \<open>
  One pass: the renderers whose \<^verbatim>\<open>render\<close> was called, in call order, the messages handed
  to \<^verbatim>\<open>logger.error\<close> by the handlers of the pass (all of them, also those that run after
  the pass was rejected), and how the promise of the \<^verbatim>\<open>async render\<close> settles: \<open>Inr ()\<close>
  fulfilled, \<open>Inl e\<close> rejected with \<open>e\<close>. The messages stand in the order of the array; the
  logger receives them in the order in which the promises are rejected.
\<close>

record pass =
  invoked :: "Renderer list"
  logged :: "string list"
  settled :: "exn + unit"

text \<open>The array \<^verbatim>\<open>enabled\<close> as line 74 finds it: the enabled values, or the default alone.\<close>

definition enabled_of :: "plugins \<Rightarrow> RendererContainer \<Rightarrow> Renderer list" where
  "enabled_of p this =
     (let enabled = filter (isEnabled p) (Map_values (renderers this)) in
      if length enabled = 0 then enabled @ [defaultRenderer this] else enabled)"

definition render :: "plugins \<Rightarrow> RendererContainer \<Rightarrow> pass \<times> RendererContainer" where
  "render p this =
     (case map_render (render_op p) (enabled_of p this) of
        (called, ps, t) \<Rightarrow>
          (\<lparr>invoked = called,
            logged = concat (map (\<lambda>q. fst (caught q)) ps),
            settled = (case t of
                         Some v \<Rightarrow> Inl (Thrown v)
                       | None \<Rightarrow> Promise_all (map (\<lambda>q. snd (caught q)) ps))\<rparr>,
           this))"

subsection \<open>Clients\<close>

text \<open>
  A client calls the four methods in any order. A call that raises leaves the container as
  the method left it.
\<close>

datatype op = Register Renderer | SetDefault Renderer | Lookup string | RenderAll plugins

fun step :: "RendererContainer \<Rightarrow> op \<Rightarrow> RendererContainer" where
  "step this (Register r) = snd (addRenderer this r)"
| "step this (SetDefault r) = snd (setDefault this r)"
| "step this (Lookup n) = snd (getRenderer this n)"
| "step this (RenderAll p) = snd (render p this)"

definition after :: "RendererContainer \<Rightarrow> op list \<Rightarrow> RendererContainer" where
  "after this ops = foldl step this ops"

text \<open>The renderers that the calls of \<open>ops\<close> registered: the \<open>addRenderer\<close> calls that returned.\<close>

fun registered :: "RendererContainer \<Rightarrow> op list \<Rightarrow> Renderer list" where
  "registered this [] = []"
| "registered this (Register r # ops) =
     (case fst (addRenderer this r) of
        Inr _ \<Rightarrow> r # registered (step this (Register r)) ops
      | Inl _ \<Rightarrow> registered (step this (Register r)) ops)"
| "registered this (x # ops) = registered (step this x) ops"

text \<open>
  Modelled from the spec: the class \<^verbatim>\<open>HtmlRenderer\<close> (./html/renderer) is not among the
  sources. The spec seeds two built-in renderers under reserved names, \<^verbatim>\<open>html\<close> and
  \<^verbatim>\<open>json\<close> in its scenarios, which are also the keys that the \<^verbatim>\<open>RendererMap\<close> interface
  gives the two classes. This is the object that \<^verbatim>\<open>new HtmlRenderer(app)\<close> makes.
\<close>

definition HtmlRenderer :: Renderer where
  "HtmlRenderer = \<lparr>oid = 0, name = ''html''\<rparr>"

text \<open>
  Modelled from the spec: the class \<^verbatim>\<open>Serializer\<close> (./json) is not among the sources; it is
  the built-in renderer of the name \<^verbatim>\<open>json\<close>. This is the object that
  \<^verbatim>\<open>new Serializer(app)\<close> makes, another object than the html renderer.
\<close>

definition Serializer :: Renderer where
  "Serializer = \<lparr>oid = 1, name = ''json''\<rparr>"

definition new_RendererContainer :: "exn + RendererContainer" where
  "new_RendererContainer = constructor HtmlRenderer Serializer"

text \<open>Invariant I2 of the spec: the default renderer is the object stored under its name.\<close>

definition I2 :: "RendererContainer \<Rightarrow> bool" where
  "I2 this = (Map_get (renderers this) (name (defaultRenderer this)) = Some (defaultRenderer this))"

subsection \<open>Example objects\<close>

text \<open>The container as the constructor leaves it, two plugin renderers, and a look-alike.\<close>

definition seeded :: RendererContainer where
  "seeded = \<lparr>defaultRenderer = HtmlRenderer,
             renderers = [(''html'', HtmlRenderer), (''json'', Serializer)]\<rparr>"

definition MarkdownRenderer :: Renderer where
  "MarkdownRenderer = \<lparr>oid = 2, name = ''markdown''\<rparr>"

definition PdfRenderer :: Renderer where
  "PdfRenderer = \<lparr>oid = 3, name = ''pdf''\<rparr>"

definition json_lookalike :: Renderer where
  "json_lookalike = \<lparr>oid = 4, name = ''json''\<rparr>"

text \<open>No output is configured, and every renderer succeeds.\<close>

definition none_enabled :: plugins where
  "none_enabled = \<lparr>isEnabled = (\<lambda>r. False), render_op = (\<lambda>r. Returns Fulfils)\<rparr>"

text \<open>Only the markdown plugin is enabled; its promise is rejected with an Error.\<close>

definition markdown_rejects :: plugins where
  "markdown_rejects =
     \<lparr>isEnabled = (\<lambda>r. name r = ''markdown''),
      render_op = (\<lambda>r. if name r = ''markdown''
                         then Returns (Rejects (ErrorObj ''disk full'')) else Returns Fulfils)\<rparr>"

text \<open>
  Every renderer is enabled, and the \<^verbatim>\<open>render\<close> of the html renderer is a plain function
  that throws: \<^verbatim>\<open>render(project) { throw new Error("boom"); }\<close>.
\<close>

definition html_throws :: plugins where
  "html_throws =
     \<lparr>isEnabled = (\<lambda>r. True),
      render_op = (\<lambda>r. if name r = ''html''
                         then Throws (ErrorObj ''boom'') else Returns Fulfils)\<rparr>"

text \<open>
  The two plugins are enabled, the built-in renderers are not, and the \<^verbatim>\<open>render\<close> of the
  markdown plugin throws before it returns a promise.
\<close>

definition markdown_throws :: plugins where
  "markdown_throws =
     \<lparr>isEnabled = (\<lambda>r. name r = ''markdown'' \<or> name r = ''pdf''),
      render_op = (\<lambda>r. if name r = ''markdown''
                         then Throws (ErrorObj ''no output directory'') else Returns Fulfils)\<rparr>"

text \<open>Every renderer is enabled; the promise of the json renderer is rejected with \<^verbatim>\<open>undefined\<close>.\<close>

definition json_rejects_undefined :: plugins where
  "json_rejects_undefined =
     \<lparr>isEnabled = (\<lambda>r. True),
      render_op = (\<lambda>r. if name r = ''json''
                         then Returns (Rejects Nullish) else Returns Fulfils)\<rparr>"

section \<open>Properties\<close>

subsection \<open>The Map and the methods, one call at a time\<close>

lemma Map_get_Map_set:
  "Map_get (Map_set m k v) k' = (if k' = k then Some v else Map_get m k')"
  by (induction m) auto

lemma Map_has_keys: "Map_has m k \<longleftrightarrow> k \<in> set (map fst m)"
  unfolding Map_has_def by (induction m) auto

lemma Map_set_new: "\<not> Map_has m k \<Longrightarrow> Map_set m k v = m @ [(k, v)]"
  unfolding Map_has_def by (induction m) (auto split: if_splits)

lemma addRenderer_duplicate:
  "Map_has (renderers this) (name r) \<Longrightarrow>
   addRenderer this r = (Inl (AssertionError (duplicate_message r)), this)"
  by (simp add: addRenderer_def ok_def)

lemma addRenderer_new:
  "\<not> Map_has (renderers this) (name r) \<Longrightarrow>
   addRenderer this r = (Inr (), this\<lparr>renderers := renderers this @ [(name r, r)]\<rparr>)"
  by (simp add: addRenderer_def ok_def Map_set_new)

lemma setDefault_registered:
  "Map_get (renderers this) (name r) = Some r \<Longrightarrow>
   setDefault this r = (Inr (), this\<lparr>defaultRenderer := r\<rparr>)"
  by (simp add: setDefault_def ok_def)

lemma setDefault_unregistered:
  "Map_get (renderers this) (name r) \<noteq> Some r \<Longrightarrow>
   setDefault this r = (Inl (AssertionError unregistered_message), this)"
  by (simp add: setDefault_def ok_def)

lemma render_frame: "snd (render p this) = this"
  by (simp add: render_def split: prod.splits)

lemma Map_get_append:
  "Map_get (m @ m') k = (case Map_get m k of Some v \<Rightarrow> Some v | None \<Rightarrow> Map_get m' k)"
  by (induction m) auto

lemma constructor_Inr:
  "constructor h j = Inr this \<longleftrightarrow>
   name h \<noteq> name j \<and> this = \<lparr>defaultRenderer = h, renderers = [(name h, h), (name j, j)]\<rparr>"
  by (auto simp: constructor_def addRenderer_def ok_def Map_has_def)

lemma step_default_cases:
  "step this x = this \<or>
   (\<exists>r. x = Register r \<and> \<not> Map_has (renderers this) (name r) \<and>
        step this x = this\<lparr>renderers := renderers this @ [(name r, r)]\<rparr>) \<or>
   (\<exists>r. x = SetDefault r \<and> Map_get (renderers this) (name r) = Some r \<and>
        step this x = this\<lparr>defaultRenderer := r\<rparr>)"
proof (cases x)
  case (Register r)
  then show ?thesis
    by (cases "Map_has (renderers this) (name r)")
       (simp_all add: addRenderer_duplicate addRenderer_new)
next
  case (SetDefault r)
  then show ?thesis
    by (cases "Map_get (renderers this) (name r) = Some r")
       (simp_all add: setDefault_registered setDefault_unregistered)
next
  case (Lookup n)
  then show ?thesis by (simp add: getRenderer_def)
next
  case (RenderAll p)
  then show ?thesis by (simp add: render_frame)
qed

lemma I2_step: "I2 this \<Longrightarrow> I2 (step this x)"
  using step_default_cases [of this x]
  by (auto simp: I2_def Map_get_append Map_has_def)

lemma I2_after: "I2 this \<Longrightarrow> I2 (after this ops)"
  unfolding after_def by (induction ops arbitrary: this) (simp_all add: I2_step)

lemma I2_constructor: "constructor h j = Inr this \<Longrightarrow> I2 this"
  by (auto simp: constructor_Inr I2_def)

lemma renderers_after:
  "renderers (after this ops) =
   renderers this @ map (\<lambda>r. (name r, r)) (registered this ops)"
  unfolding after_def
proof (induction ops arbitrary: this)
  case Nil
  show ?case by simp
next
  case (Cons x ops)
  show ?case
  proof (cases x)
    case (Register r)
    show ?thesis
      by (cases "Map_has (renderers this) (name r)")
         (simp_all add: Register Cons.IH addRenderer_duplicate addRenderer_new)
  next
    case (SetDefault r)
    show ?thesis
      by (cases "Map_get (renderers this) (name r) = Some r")
         (simp_all add: SetDefault Cons.IH setDefault_registered setDefault_unregistered)
  next
    case (Lookup n)
    then show ?thesis by (simp add: Cons.IH getRenderer_def)
  next
    case (RenderAll p)
    then show ?thesis by (simp add: Cons.IH render_frame)
  qed
qed

lemma distinct_keys_step:
  "distinct (map fst (renderers this)) \<Longrightarrow> distinct (map fst (renderers (step this x)))"
  using step_default_cases [of this x] by (auto simp: Map_has_keys)

lemma distinct_keys_after:
  "distinct (map fst (renderers this)) \<Longrightarrow> distinct (map fst (renderers (after this ops)))"
  unfolding after_def by (induction ops arbitrary: this) (simp_all add: distinct_keys_step)

text \<open>
  After construction and any calls, the Map holds the two built-in renderers and the
  registered ones, each under its own name, in the order of their registration.
\<close>

lemma renderers_reached:
  assumes "constructor h j = Inr this"
  shows "renderers (after this ops) = map (\<lambda>r. (name r, r)) (h # j # registered this ops)"
    and "distinct (map name (h # j # registered this ops))"
proof -
  from assms have r0: "renderers this = [(name h, h), (name j, j)]" and "name h \<noteq> name j"
    by (simp_all add: constructor_Inr)
  then show eq: "renderers (after this ops) = map (\<lambda>r. (name r, r)) (h # j # registered this ops)"
    by (simp add: renderers_after)
  from r0 \<open>name h \<noteq> name j\<close> have "distinct (map fst (renderers this))" by simp
  then have "distinct (map fst (renderers (after this ops)))" by (rule distinct_keys_after)
  then show "distinct (map name (h # j # registered this ops))"
    unfolding eq by (simp add: comp_def)
qed

lemma Map_get_named:
  "Map_get (map (\<lambda>r. (name r, r)) rs) n = find (\<lambda>r. name r = n) rs"
  by (induction rs) auto

lemma values_reached:
  assumes "constructor h j = Inr this"
  shows "Map_values (renderers (after this ops)) = h # j # registered this ops"
    and "distinct (Map_values (renderers (after this ops)))"
proof -
  show eq: "Map_values (renderers (after this ops)) = h # j # registered this ops"
    by (simp add: renderers_reached(1) [OF assms] Map_values_def comp_def)
  show "distinct (Map_values (renderers (after this ops)))"
    unfolding eq using renderers_reached(2) [OF assms, of ops] by (rule distinct_map [THEN iffD1, THEN conjunct1])
qed

subsection \<open>The render pass\<close>

lemma map_render_prefix: "\<exists>rest. gens = fst (map_render f gens) @ rest"
  by (induction gens) (auto split: render_call.splits prod.splits)

lemma render_invoked:
  "invoked (fst (render p this)) = fst (map_render (render_op p) (enabled_of p this))"
  by (simp add: render_def split: prod.splits)

lemma invoked_prefix: "\<exists>rest. enabled_of p this = invoked (fst (render p this)) @ rest"
  unfolding render_invoked by (rule map_render_prefix)

lemma map_render_promises:
  assumes "\<forall>g \<in> set gens. \<exists>s. f g = Returns s"
  shows "\<exists>ps. map_render f gens = (gens, ps, None) \<and> map Returns ps = map f gens"
  using assms by (induction gens) auto

lemma caught_error:
  "s = Fulfils \<or> (\<exists>m. s = Rejects (ErrorObj m)) \<Longrightarrow>
   caught s = ((case s of Rejects (ErrorObj m) \<Rightarrow> [m] | _ \<Rightarrow> []), None)"
  by auto

lemma Promise_all_None: "\<forall>x \<in> set xs. x = None \<Longrightarrow> Promise_all xs = Inr ()"
  by (induction xs) auto

lemma enabled_of_cases:
  "(filter (isEnabled p) (Map_values (renderers this)) = [] \<and>
      enabled_of p this = [defaultRenderer this]) \<or>
   (filter (isEnabled p) (Map_values (renderers this)) \<noteq> [] \<and>
      enabled_of p this = filter (isEnabled p) (Map_values (renderers this)))"
  by (simp add: enabled_of_def Let_def)

lemma render_isolates_rejections:
  assumes "\<forall>g \<in> set (enabled_of p this).
             render_op p g = Returns Fulfils \<or> (\<exists>m. render_op p g = Returns (Rejects (ErrorObj m)))"
  shows "invoked (fst (render p this)) = enabled_of p this"
    and "settled (fst (render p this)) = Inr ()"
    and "logged (fst (render p this)) =
           concat (map (\<lambda>g. case render_op p g of Returns (Rejects (ErrorObj m)) \<Rightarrow> [m] | _ \<Rightarrow> [])
                       (enabled_of p this))"
proof -
  let ?gens = "enabled_of p this"
  from assms have "\<forall>g \<in> set ?gens. \<exists>s. render_op p g = Returns s" by auto
  from map_render_promises [OF this] obtain ps where
    mr: "map_render (render_op p) ?gens = (?gens, ps, None)"
    and ps: "map Returns ps = map (render_op p) ?gens" by blast
  show "invoked (fst (render p this)) = ?gens" by (simp add: render_def mr)
  have len: "length ps = length ?gens" using ps by (metis length_map)
  have nth: "\<And>i. i < length ps \<Longrightarrow> render_op p (?gens ! i) = Returns (ps ! i)"
    using ps len by (metis nth_map)
  have good: "\<And>s. s \<in> set ps \<Longrightarrow> s = Fulfils \<or> (\<exists>m. s = Rejects (ErrorObj m))"
  proof -
    fix s assume "s \<in> set ps"
    then obtain i where i: "i < length ps" "ps ! i = s" by (auto simp: in_set_conv_nth)
    with len have "?gens ! i \<in> set ?gens" by simp
    with assms have "render_op p (?gens ! i) = Returns Fulfils \<or>
        (\<exists>m. render_op p (?gens ! i) = Returns (Rejects (ErrorObj m)))" by blast
    then show "s = Fulfils \<or> (\<exists>m. s = Rejects (ErrorObj m))"
      unfolding nth [OF i(1)] i(2) by simp
  qed
  then have "\<forall>x \<in> set (map (\<lambda>q. snd (caught q)) ps). x = None"
    by (auto simp: caught_error)
  then show "settled (fst (render p this)) = Inr ()"
    by (simp add: render_def mr Promise_all_None)
  have "map (\<lambda>q. fst (caught q)) ps =
        map (\<lambda>g. case render_op p g of Returns (Rejects (ErrorObj m)) \<Rightarrow> [m] | _ \<Rightarrow> []) ?gens"
  proof (rule nth_equalityI)
    show "length (map (\<lambda>q. fst (caught q)) ps) =
          length (map (\<lambda>g. case render_op p g of Returns (Rejects (ErrorObj m)) \<Rightarrow> [m] | _ \<Rightarrow> []) ?gens)"
      by (simp add: len)
  next
    fix i assume "i < length (map (\<lambda>q. fst (caught q)) ps)"
    then have i: "i < length ps" by simp
    then have "ps ! i \<in> set ps" by simp
    from good [OF this] show "map (\<lambda>q. fst (caught q)) ps ! i =
          map (\<lambda>g. case render_op p g of Returns (Rejects (ErrorObj m)) \<Rightarrow> [m] | _ \<Rightarrow> []) ?gens ! i"
      using i len nth [OF i] by auto
  qed
  then show "logged (fst (render p this)) =
           concat (map (\<lambda>g. case render_op p g of Returns (Rejects (ErrorObj m)) \<Rightarrow> [m] | _ \<Rightarrow> [])
                       (enabled_of p this))"
    by (simp add: render_def mr)
qed

lemma map_render_first: "gens \<noteq> [] \<Longrightarrow> fst (map_render f gens) \<noteq> []"
  by (cases gens) (auto split: render_call.splits prod.splits)

lemma invoked_default_alone:
  assumes "filter (isEnabled p) (Map_values (renderers this)) = []"
  shows "invoked (fst (render p this)) = [defaultRenderer this]"
proof -
  from assms have e: "enabled_of p this = [defaultRenderer this]"
    using enabled_of_cases [of p this] by simp
  show ?thesis
    unfolding render_invoked e by (simp split: render_call.splits)
qed

lemma render_invokes_selected:
  assumes "\<forall>g \<in> set (enabled_of p this). \<exists>s. render_op p g = Returns s"
  shows "invoked (fst (render p this)) = enabled_of p this"
  using map_render_promises [OF assms] by (auto simp: render_invoked)

subsection \<open>Evaluation of the examples\<close>

lemmas example_defs = seeded_def HtmlRenderer_def Serializer_def MarkdownRenderer_def
  PdfRenderer_def json_lookalike_def none_enabled_def markdown_rejects_def html_throws_def
  markdown_throws_def json_rejects_undefined_def new_RendererContainer_def

lemmas run_defs = after_def addRenderer_def setDefault_def getRenderer_def ok_def Map_has_def
  render_def enabled_of_def Map_values_def constructor_def duplicate_message_def

lemma Map_get_in_values: "Map_get m k = Some v \<Longrightarrow> v \<in> set (Map_values m)"
  unfolding Map_values_def by (induction m) (auto split: if_splits)

lemma set_renderers_after: "set (renderers this) \<subseteq> set (renderers (after this ops))"
  by (simp add: renderers_after)

lemma constructor_seeded: "constructor HtmlRenderer Serializer = Inr seeded"
  by (simp add: constructor_Inr seeded_def HtmlRenderer_def Serializer_def)

text \<open>A promise rejected with an Error is logged, and the pass is fulfilled.\<close>

lemma render_rejection_logged:
  "fst (render markdown_rejects (after seeded [Register MarkdownRenderer])) =
     \<lparr>invoked = [MarkdownRenderer], logged = [''disk full''], settled = Inr ()\<rparr>"
  by (simp add: run_defs example_defs)

text \<open>
  A promise rejected with \<^verbatim>\<open>undefined\<close>: the handler throws on \<^verbatim>\<open>error.message\<close>, nothing is
  logged, and the pass is rejected with the TypeError.
\<close>

lemma render_undefined_rejection_escapes:
  "fst (render json_rejects_undefined seeded) =
     \<lparr>invoked = [HtmlRenderer, Serializer], logged = [], settled = Inl TypeError\<rparr>"
  by (simp add: run_defs example_defs)

section \<open>The claims\<close>

text \<open>
  C1. The claim: the renderers whose \<open>render\<close> is called are the enabled ones, or the
  default renderer alone when none is enabled. The array \<open>enabled_of\<close> is chosen so, and
  every renderer of it is called as long as each call returns its promise
  (\<open>render_invokes_selected\<close>). A \<open>render\<close> that throws before it returns a promise ends the
  \<^verbatim>\<open>map\<close>, and the enabled renderers after it are never called: with the plugins markdown
  and pdf enabled and markdown throwing, pdf is enabled and registered, and only markdown
  is called.
\<close>

theorem render_throw_skips_enabled:
  "new_RendererContainer = Inr seeded \<and>
   enabled_of markdown_throws (after seeded [Register MarkdownRenderer, Register PdfRenderer])
     = [MarkdownRenderer, PdfRenderer] \<and>
   filter (isEnabled markdown_throws)
     (Map_values (renderers (after seeded [Register MarkdownRenderer, Register PdfRenderer])))
     = [MarkdownRenderer, PdfRenderer] \<and>
   invoked (fst (render markdown_throws
     (after seeded [Register MarkdownRenderer, Register PdfRenderer]))) = [MarkdownRenderer]"
  by (simp add: run_defs example_defs)

text \<open>
  C2. The claim: every failure of a renderer is logged and none reaches the caller or
  keeps a sibling from running. It holds when every failing renderer returns a promise
  that is rejected with an object carrying a message (\<open>render_isolates_rejections\<close>). A
  \<open>render\<close> that throws before it returns a promise has no handler attached: with html and
  json enabled and html throwing the Error \<^verbatim>\<open>boom\<close>, nothing is logged, json is never
  called, and the pass is rejected with that Error.
\<close>

theorem render_throw_escapes:
  "fst (render html_throws seeded) =
     \<lparr>invoked = [HtmlRenderer], logged = [], settled = Inl (Thrown (ErrorObj ''boom''))\<rparr> \<and>
   enabled_of html_throws seeded = [HtmlRenderer, Serializer]"
  by (simp add: run_defs example_defs)

text \<open>
  C3. For every container and every renderer \<open>r\<close>: when the Map already has the key
  \<open>name r\<close>, \<open>addRenderer\<close> raises the AssertionError with the duplicate-name message (the
  spec's DuplicateRendererName) and the container, Map and default renderer, is the one
  before the call; when the key is absent, \<open>addRenderer\<close> returns, the default renderer is
  kept, and \<open>r\<close> is appended to the Map under \<open>name r\<close>.
\<close>

theorem addRenderer_unique_names:
  "(Map_has (renderers this) (name r) \<longrightarrow>
      addRenderer this r = (Inl (AssertionError (duplicate_message r)), this)) \<and>
   (\<not> Map_has (renderers this) (name r) \<longrightarrow>
      fst (addRenderer this r) = Inr () \<and>
      defaultRenderer (snd (addRenderer this r)) = defaultRenderer this \<and>
      renderers (snd (addRenderer this r)) = renderers this @ [(name r, r)] \<and>
      Map_get (renderers (snd (addRenderer this r))) (name r) = Some r)"
  by (simp add: addRenderer_duplicate addRenderer_new Map_get_append Map_has_def)

theorem addRenderer_unique_names_witness:
  "Map_has (renderers seeded) (name json_lookalike) \<and>
   addRenderer seeded json_lookalike =
     (Inl (AssertionError ''Renderer names must be unique, duplicate: json''), seeded) \<and>
   \<not> Map_has (renderers seeded) (name MarkdownRenderer) \<and>
   fst (addRenderer seeded MarkdownRenderer) = Inr () \<and>
   defaultRenderer (snd (addRenderer seeded MarkdownRenderer)) = HtmlRenderer \<and>
   renderers (snd (addRenderer seeded MarkdownRenderer)) =
     [(''html'', HtmlRenderer), (''json'', Serializer), (''markdown'', MarkdownRenderer)]"
proof -
  have dup: "Map_has (renderers seeded) (name json_lookalike)"
    by (simp add: Map_has_def example_defs)
  have new: "\<not> Map_has (renderers seeded) (name MarkdownRenderer)"
    by (simp add: Map_has_def example_defs)
  from addRenderer_unique_names [of seeded json_lookalike] dup
  have 1: "addRenderer seeded json_lookalike =
     (Inl (AssertionError (duplicate_message json_lookalike)), seeded)" by blast
  from addRenderer_unique_names [of seeded MarkdownRenderer] new
  have 2: "fst (addRenderer seeded MarkdownRenderer) = Inr () \<and>
      defaultRenderer (snd (addRenderer seeded MarkdownRenderer)) = defaultRenderer seeded \<and>
      renderers (snd (addRenderer seeded MarkdownRenderer)) =
        renderers seeded @ [(name MarkdownRenderer, MarkdownRenderer)]" by blast
  show ?thesis using dup new 1 2
    by (simp add: duplicate_message_def json_lookalike_def seeded_def MarkdownRenderer_def)
qed

text \<open>
  C4. For every container and every renderer \<open>r\<close>: \<open>setDefault\<close> returns exactly when the Map
  holds \<open>r\<close> itself under \<open>name r\<close>, and then \<open>r\<close> is the new default renderer and nothing
  else changes; otherwise, also when another renderer is registered under the name of \<open>r\<close>,
  it raises the AssertionError of the identity check (the spec's UnregisteredDefault) and
  the container, with its default renderer, is the one before the call.
\<close>

theorem setDefault_identity:
  "(fst (setDefault this r) = Inr () \<longleftrightarrow> Map_get (renderers this) (name r) = Some r) \<and>
   (Map_get (renderers this) (name r) = Some r \<longrightarrow>
      setDefault this r = (Inr (), this\<lparr>defaultRenderer := r\<rparr>)) \<and>
   (Map_get (renderers this) (name r) \<noteq> Some r \<longrightarrow>
      setDefault this r = (Inl (AssertionError unregistered_message), this))"
  by (cases "Map_get (renderers this) (name r) = Some r")
     (simp_all add: setDefault_registered setDefault_unregistered)

theorem setDefault_identity_witness:
  "Map_get (renderers seeded) (name Serializer) = Some Serializer \<and>
   setDefault seeded Serializer = (Inr (), seeded\<lparr>defaultRenderer := Serializer\<rparr>) \<and>
   Map_get (renderers seeded) (name json_lookalike) = Some Serializer \<and>
   json_lookalike \<noteq> Serializer \<and>
   setDefault seeded json_lookalike = (Inl (AssertionError unregistered_message), seeded) \<and>
   defaultRenderer (snd (setDefault seeded json_lookalike)) = HtmlRenderer \<and>
   Map_get (renderers seeded) (name MarkdownRenderer) = None \<and>
   setDefault seeded MarkdownRenderer = (Inl (AssertionError unregistered_message), seeded)"
proof -
  have a: "Map_get (renderers seeded) (name Serializer) = Some Serializer"
    and b: "Map_get (renderers seeded) (name json_lookalike) = Some Serializer"
    and c: "json_lookalike \<noteq> Serializer"
    and d: "Map_get (renderers seeded) (name MarkdownRenderer) = None"
    by (simp_all add: example_defs)
  from setDefault_identity [of seeded Serializer] a
  have 1: "setDefault seeded Serializer = (Inr (), seeded\<lparr>defaultRenderer := Serializer\<rparr>)"
    by blast
  from setDefault_identity [of seeded json_lookalike] b c
  have 2: "setDefault seeded json_lookalike = (Inl (AssertionError unregistered_message), seeded)"
    by simp
  from setDefault_identity [of seeded MarkdownRenderer] d
  have 3: "setDefault seeded MarkdownRenderer = (Inl (AssertionError unregistered_message), seeded)"
    by simp
  show ?thesis using a b c d 1 2 3 by (simp add: seeded_def)
qed

text \<open>
  C5. Invariant I2, the default renderer is the object that the Map holds under the
  default's name, holds for the container that the constructor returns, is preserved by
  each of \<open>addRenderer\<close>, \<open>setDefault\<close>, \<open>getRenderer\<close> and \<open>render\<close>, whether the call
  returns or raises, and so holds after any sequence of calls.
\<close>

theorem I2_invariant:
  "(constructor h j = Inr this \<longrightarrow> I2 this \<and> I2 (after this ops)) \<and>
   (I2 c \<longrightarrow> I2 (snd (addRenderer c r)) \<and> I2 (snd (setDefault c r)) \<and>
              I2 (snd (getRenderer c n)) \<and> I2 (snd (render p c)))"
proof -
  have "I2 c \<Longrightarrow> I2 (snd (addRenderer c r))" using I2_step [of c "Register r"] by simp
  moreover have "I2 c \<Longrightarrow> I2 (snd (setDefault c r))" using I2_step [of c "SetDefault r"] by simp
  moreover have "I2 c \<Longrightarrow> I2 (snd (getRenderer c n))" using I2_step [of c "Lookup n"] by simp
  moreover have "I2 c \<Longrightarrow> I2 (snd (render p c))" using I2_step [of c "RenderAll p"] by simp
  ultimately show ?thesis by (auto intro: I2_constructor I2_after)
qed

theorem I2_invariant_witness:
  "constructor HtmlRenderer Serializer = Inr seeded \<and> I2 seeded \<and>
   I2 (after seeded [Register MarkdownRenderer, SetDefault MarkdownRenderer,
         SetDefault json_lookalike, Register json_lookalike, Lookup ''pdf'',
         RenderAll none_enabled]) \<and>
   defaultRenderer (after seeded [Register MarkdownRenderer, SetDefault MarkdownRenderer,
         SetDefault json_lookalike, Register json_lookalike, Lookup ''pdf'',
         RenderAll none_enabled]) = MarkdownRenderer \<and>
   I2 (snd (addRenderer seeded PdfRenderer)) \<and> I2 (snd (setDefault seeded Serializer)) \<and>
   I2 (snd (getRenderer seeded ''html'')) \<and> I2 (snd (render html_throws seeded))"
proof -
  let ?ops = "[Register MarkdownRenderer, SetDefault MarkdownRenderer,
         SetDefault json_lookalike, Register json_lookalike, Lookup ''pdf'',
         RenderAll none_enabled]"
  have c: "constructor HtmlRenderer Serializer = Inr seeded" by (rule constructor_seeded)
  from I2_invariant [of HtmlRenderer Serializer seeded ?ops] c
  have 1: "I2 seeded" and 2: "I2 (after seeded ?ops)" by blast+
  from I2_invariant [where c = seeded and r = PdfRenderer] 1
  have 3: "I2 (snd (addRenderer seeded PdfRenderer))" by blast
  from I2_invariant [where c = seeded and r = Serializer and n = "''html''" and p = html_throws] 1
  have 4: "I2 (snd (setDefault seeded Serializer))" "I2 (snd (getRenderer seeded ''html''))"
    "I2 (snd (render html_throws seeded))" by blast+
  have 5: "defaultRenderer (after seeded ?ops) = MarkdownRenderer"
    by (simp add: after_def addRenderer_def setDefault_def getRenderer_def ok_def Map_has_def
        render_frame example_defs)
  show ?thesis using c 1 2 3 4 5 by simp
qed

text \<open>
  C6. The constructor, given the two built-in renderers, returns the container that holds
  exactly them, under the names html and json, with the html renderer as the default. No
  sequence of calls removes an entry from the Map of any container, so after any calls the
  Map of the constructed container is not empty and still holds the two built-in renderers
  under their names.
\<close>

theorem constructor_seeds_builtins:
  "new_RendererContainer = Inr seeded \<and>
   renderers seeded = [(''html'', HtmlRenderer), (''json'', Serializer)] \<and>
   name HtmlRenderer = ''html'' \<and> name Serializer = ''json'' \<and>
   defaultRenderer seeded = HtmlRenderer \<and>
   set (renderers this) \<subseteq> set (renderers (after this ops)) \<and>
   renderers (after seeded ops) \<noteq> [] \<and>
   Map_get (renderers (after seeded ops)) ''html'' = Some HtmlRenderer \<and>
   Map_get (renderers (after seeded ops)) ''json'' = Some Serializer"
proof -
  have "new_RendererContainer = Inr seeded"
    by (simp add: new_RendererContainer_def constructor_seeded)
  moreover have "renderers seeded = [(''html'', HtmlRenderer), (''json'', Serializer)]"
    and "name HtmlRenderer = ''html''" and "name Serializer = ''json''"
    and "defaultRenderer seeded = HtmlRenderer"
    by (simp_all add: seeded_def HtmlRenderer_def Serializer_def)
  moreover have "renderers (after seeded ops) \<noteq> []"
    and "Map_get (renderers (after seeded ops)) ''html'' = Some HtmlRenderer"
    and "Map_get (renderers (after seeded ops)) ''json'' = Some Serializer"
    by (simp_all add: renderers_after seeded_def HtmlRenderer_def Serializer_def)
  ultimately show ?thesis using set_renderers_after [of this ops] by simp
qed

theorem constructor_seeds_builtins_witness:
  "new_RendererContainer = Inr seeded \<and>
   renderers (after seeded [Register MarkdownRenderer, SetDefault MarkdownRenderer,
       Register json_lookalike]) =
     [(''html'', HtmlRenderer), (''json'', Serializer), (''markdown'', MarkdownRenderer)] \<and>
   Map_get (renderers (after seeded [Register MarkdownRenderer, SetDefault MarkdownRenderer,
       Register json_lookalike])) ''json'' = Some Serializer"
proof -
  let ?ops = "[Register MarkdownRenderer, SetDefault MarkdownRenderer, Register json_lookalike]"
  note t = constructor_seeds_builtins [of seeded ?ops]
  have "renderers (after seeded ?ops) =
     [(''html'', HtmlRenderer), (''json'', Serializer), (''markdown'', MarkdownRenderer)]"
    by (simp add: run_defs example_defs)
  with t show ?thesis by simp
qed

text \<open>
  C7. \<open>getRenderer\<close> returns for every container and every name, and leaves the container as
  it is. After the constructor and any sequence of calls, it returns the absence value
  exactly when no built-in or registered renderer has the name, and it returns \<open>r\<close> exactly
  when \<open>r\<close> is a built-in or registered renderer of that name.
\<close>

theorem getRenderer_total:
  "(\<exists>v. getRenderer this n = (Inr v, this)) \<and>
   (constructor h j = Inr c \<longrightarrow>
      (fst (getRenderer (after c ops) n) = Inr None \<longleftrightarrow>
         n \<notin> name ` set (h # j # registered c ops)) \<and>
      (\<forall>r. fst (getRenderer (after c ops) n) = Inr (Some r) \<longleftrightarrow>
         r \<in> set (h # j # registered c ops) \<and> name r = n))"
proof -
  have total: "\<exists>v. getRenderer this n = (Inr v, this)" by (simp add: getRenderer_def)
  have reached: "(fst (getRenderer (after c ops) n) = Inr None \<longleftrightarrow>
         n \<notin> name ` set (h # j # registered c ops)) \<and>
      (\<forall>r. fst (getRenderer (after c ops) n) = Inr (Some r) \<longleftrightarrow>
         r \<in> set (h # j # registered c ops) \<and> name r = n)"
    if c: "constructor h j = Inr c"
  proof -
    let ?rs = "h # j # registered c ops"
    have get: "fst (getRenderer (after c ops) n) = Inr (find (\<lambda>r. name r = n) ?rs)"
      by (simp only: getRenderer_def fst_conv renderers_reached(1) [OF c] Map_get_named)
    have d: "distinct (map name ?rs)" by (rule renderers_reached(2) [OF c])
    have none: "find (\<lambda>r. name r = n) ?rs = None \<longleftrightarrow> n \<notin> name ` set ?rs"
      unfolding find_None_iff by blast
    have some: "find (\<lambda>r. name r = n) ?rs = Some r \<longleftrightarrow> r \<in> set ?rs \<and> name r = n" for r
    proof
      assume "find (\<lambda>r. name r = n) ?rs = Some r"
      then show "r \<in> set ?rs \<and> name r = n"
        unfolding find_Some_iff by (metis nth_mem)
    next
      assume r: "r \<in> set ?rs \<and> name r = n"
      then have "find (\<lambda>r. name r = n) ?rs \<noteq> None"
        unfolding find_None_iff by blast
      then obtain r' where f: "find (\<lambda>r. name r = n) ?rs = Some r'" by blast
      then have "r' \<in> set ?rs \<and> name r' = n"
        unfolding find_Some_iff by (metis nth_mem)
      with r d have "r' = r" by (meson distinct_map inj_onD)
      with f show "find (\<lambda>r. name r = n) ?rs = Some r" by simp
    qed
    show ?thesis unfolding get using none some by simp
  qed
  from total reached show ?thesis by blast
qed

theorem getRenderer_total_witness:
  "constructor HtmlRenderer Serializer = Inr seeded \<and>
   registered seeded [Register MarkdownRenderer, Register json_lookalike] = [MarkdownRenderer] \<and>
   fst (getRenderer (after seeded [Register MarkdownRenderer, Register json_lookalike])
          ''markdown'') = Inr (Some MarkdownRenderer) \<and>
   fst (getRenderer (after seeded [Register MarkdownRenderer, Register json_lookalike])
          ''json'') \<noteq> Inr (Some json_lookalike) \<and>
   fst (getRenderer (after seeded [Register MarkdownRenderer, Register json_lookalike])
          ''pdf'') = Inr None"
proof -
  let ?ops = "[Register MarkdownRenderer, Register json_lookalike]"
  have c: "constructor HtmlRenderer Serializer = Inr seeded" by (rule constructor_seeded)
  have reg: "registered seeded ?ops = [MarkdownRenderer]"
    by (simp add: run_defs example_defs)
  note t = getRenderer_total [of _ _ HtmlRenderer Serializer seeded ?ops, THEN conjunct2, rule_format, OF c]
  have rs: "set (HtmlRenderer # Serializer # registered seeded ?ops) =
      {HtmlRenderer, Serializer, MarkdownRenderer}"
    unfolding reg by simp
  have "MarkdownRenderer \<in> {HtmlRenderer, Serializer, MarkdownRenderer} \<and>
      name MarkdownRenderer = ''markdown''"
    by (simp add: MarkdownRenderer_def)
  with t [of "''markdown''", THEN conjunct2, rule_format, of MarkdownRenderer]
  have 1: "fst (getRenderer (after seeded ?ops) ''markdown'') = Inr (Some MarkdownRenderer)"
    unfolding rs by blast
  have "json_lookalike \<notin> {HtmlRenderer, Serializer, MarkdownRenderer}"
    by (simp add: example_defs)
  with t [of "''json''", THEN conjunct2, rule_format, of json_lookalike]
  have 2: "fst (getRenderer (after seeded ?ops) ''json'') \<noteq> Inr (Some json_lookalike)"
    unfolding rs by blast
  have "''pdf'' \<notin> name ` {HtmlRenderer, Serializer, MarkdownRenderer}"
    by (simp add: example_defs)
  with t [of "''pdf''", THEN conjunct1]
  have 3: "fst (getRenderer (after seeded ?ops) ''pdf'') = Inr None"
    unfolding rs by blast
  show ?thesis using c reg 1 2 3 by simp
qed

text \<open>
  C8. \<open>render\<close> leaves the container as it found it: the Map and the default renderer after
  the pass are those before it, however the renderers answer. It reads the two fields and
  pushes the default renderer onto an array of its own. What a renderer does to the
  container from inside its \<open>render\<close> is not the container's code.
\<close>

theorem render_leaves_container:
  "snd (render p this) = this \<and>
   renderers (snd (render p this)) = renderers this \<and>
   defaultRenderer (snd (render p this)) = defaultRenderer this"
  by (simp add: render_frame)

text \<open>
  C9. When no renderer is registered under \<open>name r\<close>, \<open>addRenderer\<close> returns, after it
  \<open>getRenderer\<close> finds \<open>r\<close> itself under \<open>name r\<close>, and under every other name it finds what it
  found before.
\<close>

theorem addRenderer_getRenderer_roundtrip:
  "\<not> Map_has (renderers this) (name r) \<Longrightarrow>
   fst (addRenderer this r) = Inr () \<and>
   fst (getRenderer (snd (addRenderer this r)) (name r)) = Inr (Some r) \<and>
   (\<forall>n. n \<noteq> name r \<longrightarrow>
      fst (getRenderer (snd (addRenderer this r)) n) = fst (getRenderer this n))"
  by (simp add: addRenderer_new getRenderer_def Map_get_append Map_has_def split: option.splits)

theorem addRenderer_getRenderer_roundtrip_witness:
  "\<not> Map_has (renderers seeded) (name MarkdownRenderer) \<and>
   fst (addRenderer seeded MarkdownRenderer) = Inr () \<and>
   fst (getRenderer (snd (addRenderer seeded MarkdownRenderer)) ''markdown'')
     = Inr (Some MarkdownRenderer) \<and>
   fst (getRenderer (snd (addRenderer seeded MarkdownRenderer)) ''json'') = Inr (Some Serializer) \<and>
   fst (getRenderer (snd (addRenderer seeded MarkdownRenderer)) ''pdf'') = Inr None"
proof -
  have new: "\<not> Map_has (renderers seeded) (name MarkdownRenderer)"
    by (simp add: Map_has_def example_defs)
  note t = addRenderer_getRenderer_roundtrip [OF new]
  have n: "name MarkdownRenderer = ''markdown''" by (simp add: MarkdownRenderer_def)
  have 1: "fst (getRenderer (snd (addRenderer seeded MarkdownRenderer)) ''json'')
      = fst (getRenderer seeded ''json'')"
    using t [THEN conjunct2, THEN conjunct2, rule_format, of "''json''"] by (simp add: n)
  have 2: "fst (getRenderer (snd (addRenderer seeded MarkdownRenderer)) ''pdf'')
      = fst (getRenderer seeded ''pdf'')"
    using t [THEN conjunct2, THEN conjunct2, rule_format, of "''pdf''"] by (simp add: n)
  have 3: "fst (getRenderer seeded ''json'') = Inr (Some Serializer)"
    "fst (getRenderer seeded ''pdf'') = Inr None"
    by (simp_all add: getRenderer_def example_defs)
  show ?thesis using new t 1 2 3 by (simp add: n)
qed

text \<open>
  C10. In one pass of a container made by the constructor and any sequence of calls, no
  renderer is called twice. When some renderer is enabled, only enabled renderers are
  called, so the default renderer is called only as one of them; when none is enabled, the
  default renderer alone is called, and its \<open>isEnabled\<close> is false.
\<close>

theorem render_at_most_once:
  "constructor h j = Inr c \<Longrightarrow>
   distinct (invoked (fst (render p (after c ops)))) \<and>
   (filter (isEnabled p) (Map_values (renderers (after c ops))) \<noteq> [] \<longrightarrow>
      (\<forall>g \<in> set (invoked (fst (render p (after c ops)))). isEnabled p g)) \<and>
   (filter (isEnabled p) (Map_values (renderers (after c ops))) = [] \<longrightarrow>
      invoked (fst (render p (after c ops))) = [defaultRenderer (after c ops)] \<and>
      \<not> isEnabled p (defaultRenderer (after c ops)))"
proof -
  assume c: "constructor h j = Inr c"
  let ?t = "after c ops"
  let ?vals = "Map_values (renderers ?t)"
  let ?inv = "invoked (fst (render p ?t))"
  have dv: "distinct ?vals" by (rule values_reached(2) [OF c])
  obtain rest where pre: "enabled_of p ?t = ?inv @ rest"
    using invoked_prefix [of p ?t] by blast
  have "distinct (enabled_of p ?t)"
    using enabled_of_cases [of p ?t] dv by auto
  then have 1: "distinct ?inv" unfolding pre by simp
  have 2: "\<forall>g \<in> set ?inv. isEnabled p g" if "filter (isEnabled p) ?vals \<noteq> []"
  proof -
    from that have "enabled_of p ?t = filter (isEnabled p) ?vals"
      using enabled_of_cases [of p ?t] by simp
    with pre have "filter (isEnabled p) ?vals = ?inv @ rest" by simp
    then have "set (filter (isEnabled p) ?vals) = set ?inv \<union> set rest"
      by (simp only: set_append)
    then have "set ?inv \<subseteq> set (filter (isEnabled p) ?vals)" by blast
    then show ?thesis by auto
  qed
  have 3: "?inv = [defaultRenderer ?t] \<and> \<not> isEnabled p (defaultRenderer ?t)"
    if none: "filter (isEnabled p) ?vals = []"
  proof -
    have "I2 ?t" using c by (intro I2_after I2_constructor)
    then have "defaultRenderer ?t \<in> set ?vals"
      unfolding I2_def by (rule Map_get_in_values)
    with none have "\<not> isEnabled p (defaultRenderer ?t)"
      by (simp add: filter_empty_conv)
    with invoked_default_alone [OF none] show ?thesis by simp
  qed
  from 1 2 3 show ?thesis by blast
qed

theorem render_at_most_once_witness:
  "constructor HtmlRenderer Serializer = Inr seeded \<and>
   invoked (fst (render none_enabled (after seeded [Register MarkdownRenderer])))
     = [HtmlRenderer] \<and>
   \<not> isEnabled none_enabled HtmlRenderer \<and>
   distinct (invoked (fst (render html_throws (after seeded [Register MarkdownRenderer])))) \<and>
   invoked (fst (render markdown_rejects
      (after seeded [Register MarkdownRenderer, SetDefault MarkdownRenderer])))
     = [MarkdownRenderer]"
proof -
  have c: "constructor HtmlRenderer Serializer = Inr seeded" by (rule constructor_seeded)
  have none: "filter (isEnabled none_enabled)
      (Map_values (renderers (after seeded [Register MarkdownRenderer]))) = []"
    by (simp add: none_enabled_def)
  have d: "defaultRenderer (after seeded [Register MarkdownRenderer]) = HtmlRenderer"
    by (simp add: run_defs example_defs)
  from render_at_most_once [OF c, of none_enabled "[Register MarkdownRenderer]"] none
  have 1: "invoked (fst (render none_enabled (after seeded [Register MarkdownRenderer])))
      = [HtmlRenderer] \<and> \<not> isEnabled none_enabled HtmlRenderer"
    unfolding d by blast
  from render_at_most_once [OF c, of html_throws "[Register MarkdownRenderer]"]
  have 2: "distinct (invoked (fst (render html_throws (after seeded [Register MarkdownRenderer]))))"
    by blast
  have 3: "invoked (fst (render markdown_rejects
      (after seeded [Register MarkdownRenderer, SetDefault MarkdownRenderer])))
     = [MarkdownRenderer]"
    by (simp add: run_defs example_defs)
  from c 1 2 3 show ?thesis by simp
qed

end
